theory Spec2Isabelle
  imports Complex_Main "HOL-Library.Log_Nat"
begin

section \<open>Numbers\<close>

text \<open>
  The settlement engine of PokerSettle: \<^verbatim>\<open>calculateSettlements\<close>, \<^verbatim>\<open>calculateTotals\<close> and
  \<^verbatim>\<open>generateMarkdownReport\<close> of the page component.

  The source computes on JavaScript numbers, which are IEEE 754 doubles. A number is a
  finite value, an infinity or NaN; a finite value is kept as the rational it denotes.
  The two zeros are one value here: no comparison, sum or rounding of the engine tells
  them apart.
\<close>

datatype number = Fin rat | PInf | NInf | NaN

text \<open>
  \<open>exponentOf x\<close> is the \<open>e\<close> with \<open>2\<^sup>e \<le> \<bar>x\<bar> < 2\<^sup>e\<^sup>+\<^sup>1\<close>, for \<open>x \<noteq> 0\<close>: the difference of the
  bit lengths of numerator and denominator, or one less.
\<close>

definition exponentOf :: "rat \<Rightarrow> int" where
  "exponentOf x =
     (let d = bitlen (fst (quotient_of \<bar>x\<bar>)) - bitlen (snd (quotient_of \<bar>x\<bar>))
      in if 2 powi d \<le> \<bar>x\<bar> then d else d - 1)"

text \<open>The nearest integer, the even one of two.\<close>

definition roundHalfEven :: "rat \<Rightarrow> int" where
  "roundHalfEven q =
     (let f = \<lfloor>q\<rfloor>; r = q - of_int f
      in if r < 1 / 2 then f
         else if 1 / 2 < r then f + 1
         else if even f then f else f + 1)"

text \<open>
  The double nearest to a rational, ties to the even significand: 53 significant bits,
  exponents from \<open>-1022\<close> (below, the spacing stays \<open>2\<^sup>-\<^sup>1\<^sup>0\<^sup>7\<^sup>4\<close>), and an infinity when
  the rounded value reaches \<open>2\<^sup>1\<^sup>0\<^sup>2\<^sup>4\<close>. This is the rounding of every arithmetic operation
  and of reading a decimal.
\<close>

definition overflowBound :: rat where
  "overflowBound = 2 ^ 1024"

definition double :: "rat \<Rightarrow> number" where
  "double x =
     (if x = 0 then Fin 0
      else let u = 2 powi (max (exponentOf x) (- 1022) - 52);
               y = of_int (roundHalfEven (x / u)) * u
           in if overflowBound \<le> \<bar>y\<bar> then (if 0 < x then PInf else NInf) else Fin y)"

text \<open>The operators \<^verbatim>\<open>+\<close>, unary \<^verbatim>\<open>-\<close>, binary \<^verbatim>\<open>-\<close> and \<^verbatim>\<open>/\<close>.\<close>

fun jsAdd :: "number \<Rightarrow> number \<Rightarrow> number" where
  "jsAdd NaN b = NaN"
| "jsAdd a NaN = NaN"
| "jsAdd (Fin x) (Fin y) = double (x + y)"
| "jsAdd PInf NInf = NaN"
| "jsAdd NInf PInf = NaN"
| "jsAdd PInf b = PInf"
| "jsAdd NInf b = NInf"
| "jsAdd a PInf = PInf"
| "jsAdd a NInf = NInf"

fun jsNeg :: "number \<Rightarrow> number" where
  "jsNeg (Fin x) = Fin (- x)"
| "jsNeg PInf = NInf"
| "jsNeg NInf = PInf"
| "jsNeg NaN = NaN"

definition jsSub :: "number \<Rightarrow> number \<Rightarrow> number" where
  "jsSub a b = jsAdd a (jsNeg b)"

fun jsDiv :: "number \<Rightarrow> number \<Rightarrow> number" where
  "jsDiv NaN b = NaN"
| "jsDiv a NaN = NaN"
| "jsDiv (Fin x) (Fin y) =
     (if y = 0 then (if x = 0 then NaN else if 0 < x then PInf else NInf)
      else double (x / y))"
| "jsDiv (Fin x) b = Fin 0"
| "jsDiv PInf (Fin y) = (if 0 \<le> y then PInf else NInf)"
| "jsDiv NInf (Fin y) = (if 0 \<le> y then NInf else PInf)"
| "jsDiv a b = NaN"

text \<open>\<^verbatim>\<open>Math.abs\<close> and \<^verbatim>\<open>Math.min\<close>.\<close>

fun jsAbs :: "number \<Rightarrow> number" where
  "jsAbs (Fin x) = Fin \<bar>x\<bar>"
| "jsAbs PInf = PInf"
| "jsAbs NInf = PInf"
| "jsAbs NaN = NaN"

text \<open>The comparisons \<^verbatim>\<open><\<close>, \<^verbatim>\<open>>\<close> and \<^verbatim>\<open><=\<close>: false as soon as one side is NaN.\<close>

fun jsLess :: "number \<Rightarrow> number \<Rightarrow> bool" where
  "jsLess NaN b = False"
| "jsLess a NaN = False"
| "jsLess (Fin x) (Fin y) = (x < y)"
| "jsLess a NInf = False"
| "jsLess PInf b = False"
| "jsLess NInf b = True"
| "jsLess a PInf = True"

definition jsGreater :: "number \<Rightarrow> number \<Rightarrow> bool" where
  "jsGreater a b = jsLess b a"

definition jsLessEq :: "number \<Rightarrow> number \<Rightarrow> bool" where
  "jsLessEq a b = (a \<noteq> NaN \<and> b \<noteq> NaN \<and> \<not> jsLess b a)"

definition jsMin :: "number \<Rightarrow> number \<Rightarrow> number" where
  "jsMin a b = (if a = NaN \<or> b = NaN then NaN else if jsLess b a then b else a)"

text \<open>
  \<^verbatim>\<open>Number(x.toFixed(2))\<close>. \<^verbatim>\<open>toFixed\<close> works on the magnitude of the exact value of the
  double and restores the sign; below \<open>10\<^sup>2\<^sup>1\<close> it picks the integer \<open>n\<close> with \<open>n / 100\<close>
  closest to the magnitude, the larger one of two, and from \<open>10\<^sup>2\<^sup>1\<close> on it prints the
  number itself, as it does an infinity or NaN. \<^verbatim>\<open>Number\<close> reads the digits back as the
  nearest double.
\<close>

fun toFixed2 :: "number \<Rightarrow> number" where
  "toFixed2 (Fin x) =
     (if 10 ^ 21 \<le> \<bar>x\<bar> then Fin x
      else if x < 0 then double (- (of_int \<lfloor>(- x) * 100 + 1 / 2\<rfloor> / 100))
      else double (of_int \<lfloor>x * 100 + 1 / 2\<rfloor> / 100))"
| "toFixed2 PInf = PInf"
| "toFixed2 NInf = NInf"
| "toFixed2 NaN = NaN"

section \<open>Data model\<close>

text \<open>
  The interfaces \<^verbatim>\<open>Player\<close> and \<^verbatim>\<open>Settlement\<close>, and the anonymous balance object
  \<^verbatim>\<open>{id, name, balance}\<close>, are records. The field names \<^verbatim>\<open>id\<close>, \<^verbatim>\<open>name\<close>, \<^verbatim>\<open>from\<close> and \<^verbatim>\<open>to\<close>
  carry a suffix, since they clash with constants and keywords.
\<close>

record Player =
  id_p :: string
  name_p :: string
  buyIn :: number
  cashOut :: number

record Settlement =
  from_s :: string
  to_s :: string
  amount :: number

record Balance =
  id_b :: string
  name_b :: string
  balance :: number

record Totals =
  totalBuyIns :: number
  totalCashOuts :: number

section \<open>Totals\<close>

text \<open>\<^verbatim>\<open>players.reduce(...)\<close> from the left, starting at zero totals.\<close>

definition calculateTotals :: "Player list \<Rightarrow> Totals" where
  "calculateTotals players =
     foldl (\<lambda>acc player.
              \<lparr>totalBuyIns = jsAdd (totalBuyIns acc) (buyIn player),
               totalCashOuts = jsAdd (totalCashOuts acc) (cashOut player)\<rparr>)
       \<lparr>totalBuyIns = Fin 0, totalCashOuts = Fin 0\<rparr> players"

text \<open>\<^verbatim>\<open>imbalance = totalCashOuts - totalBuyIns\<close>.\<close>

definition imbalanceOf :: "Player list \<Rightarrow> number" where
  "imbalanceOf players =
     jsSub (totalCashOuts (calculateTotals players)) (totalBuyIns (calculateTotals players))"

section \<open>The settlement engine\<close>

text \<open>
  The adjusted player list: when the imbalance is within the threshold and there is a
  player, every cash-out loses an equal share of the imbalance, rounded.
\<close>

definition adjustPlayers :: "Player list \<Rightarrow> number \<Rightarrow> Player list" where
  "adjustPlayers players imbalanceThreshold =
     (if jsLessEq (jsAbs (imbalanceOf players)) imbalanceThreshold \<and> length players > 0
      then let adjustment = jsDiv (imbalanceOf players) (Fin (of_nat (length players)))
           in map (\<lambda>player. player\<lparr>cashOut := toFixed2 (jsSub (cashOut player) adjustment)\<rparr>)
                players
      else players)"

text \<open>The balance object of a player (before the filter).\<close>

definition toBalance :: "Player \<Rightarrow> Balance" where
  "toBalance player =
     \<lparr>id_b = id_p player, name_b = name_p player,
      balance = toFixed2 (jsSub (cashOut player) (buyIn player))\<rparr>"

text \<open>
  The filter \<^verbatim>\<open>p => Math.abs(p.balance) > 0.01\<close>, used before and inside the loop; the
  literal \<^verbatim>\<open>0.01\<close> is the double nearest to one hundredth.
\<close>

definition cent :: number where
  "cent = double (1 / 100)"

definition unsettled :: "Balance \<Rightarrow> bool" where
  "unsettled p = jsGreater (jsAbs (balance p)) cent"

definition initialBalances :: "Player list \<Rightarrow> number \<Rightarrow> Balance list" where
  "initialBalances players imbalanceThreshold =
     filter unsettled (map toBalance (adjustPlayers players imbalanceThreshold))"

text \<open>
  \<^verbatim>\<open>balances.sort((a, b) => Math.abs(b.balance) - Math.abs(a.balance))\<close>. The sort is
  stable: an element moves behind another only when the comparator, called on the two
  in their order, is positive (a NaN counts as zero). The lists the loop sorts hold no
  NaN, and on them the comparator is the order of the magnitudes, largest first.
\<close>

definition compareBalances :: "Balance \<Rightarrow> Balance \<Rightarrow> number" where
  "compareBalances a b = jsSub (jsAbs (balance b)) (jsAbs (balance a))"

fun insertBalance :: "Balance \<Rightarrow> Balance list \<Rightarrow> Balance list" where
  "insertBalance a [] = [a]"
| "insertBalance a (b # bs) =
     (if jsGreater (compareBalances a b) (Fin 0) then b # insertBalance a bs
      else a # b # bs)"

definition sortBalances :: "Balance list \<Rightarrow> Balance list" where
  "sortBalances balances = foldr insertBalance balances []"

text \<open>
  The choice of debtor and creditor, as positions 0 or 1 of the ordered list: the objects
  are shared with the list, and the two may be the same object.
\<close>

definition debtorIndex :: "Balance list \<Rightarrow> nat" where
  "debtorIndex ordered = (if jsLess (balance (ordered ! 0)) (Fin 0) then 0 else 1)"

definition creditorIndex :: "Balance list \<Rightarrow> nat" where
  "creditorIndex ordered = (if jsGreater (balance (ordered ! 0)) (Fin 0) then 0 else 1)"

text \<open>\<^verbatim>\<open>Math.min(Math.abs(debtor.balance), creditor.balance)\<close>, on the ordered list.\<close>

definition transferAmount :: "Balance list \<Rightarrow> number" where
  "transferAmount ordered =
     jsMin (jsAbs (balance (ordered ! debtorIndex ordered)))
       (balance (ordered ! creditorIndex ordered))"

text \<open>
  One iteration of the loop, entered with at least two balances, so that positions 0
  and 1 exist. The two assignments to \<^verbatim>\<open>balance\<close> are updates of the list in place, in the
  order of the source; the second reads the list the first has written.
\<close>

definition settleStep :: "Balance list \<Rightarrow> Settlement list \<Rightarrow> Balance list \<times> Settlement list" where
  "settleStep balances settlements =
     (let ordered = sortBalances balances;
          d = debtorIndex ordered;
          c = creditorIndex ordered;
          amt = transferAmount ordered;
          settlements' =
            (if jsGreater amt (Fin 0)
             then settlements @
                    [\<lparr>from_s = id_b (ordered ! d), to_s = id_b (ordered ! c), amount = toFixed2 amt\<rparr>]
             else settlements);
          s1 = ordered[d := (ordered ! d)\<lparr>balance := toFixed2 (jsAdd (balance (ordered ! d)) amt)\<rparr>];
          s2 = s1[c := (s1 ! c)\<lparr>balance := toFixed2 (jsSub (balance (s1 ! c)) amt)\<rparr>]
      in (filter unsettled s2, settlements'))"

text \<open>
  \<^verbatim>\<open>while (balances.length > 1) ...; return settlements\<close>. The loop has no bound of its
  own, so it is a partial function: \<open>None\<close> is a run that never returns.
\<close>

partial_function (option) settleLoop :: "Balance list \<Rightarrow> Settlement list \<Rightarrow> Settlement list option" where
  "settleLoop balances settlements =
     (if length balances > 1
      then settleLoop (fst (settleStep balances settlements)) (snd (settleStep balances settlements))
      else Some settlements)"

declare settleLoop.simps [code]

definition calculateSettlements :: "Player list \<Rightarrow> number \<Rightarrow> Settlement list option" where
  "calculateSettlements players imbalanceThreshold =
     (if jsGreater (jsAbs (imbalanceOf players)) imbalanceThreshold then Some []
      else settleLoop (initialBalances players imbalanceThreshold) [])"

section \<open>The report\<close>

text \<open>\<^verbatim>\<open>Array.prototype.join\<close> on strings.\<close>

fun join :: "string \<Rightarrow> string list \<Rightarrow> string" where
  "join sep [] = []"
| "join sep [x] = x"
| "join sep (x # y # ys) = x @ sep @ join sep (y # ys)"

definition newline :: string where
  "newline = [CHR 0x0A]"

text \<open>
  \<^verbatim>\<open>${players.find(p => p.id === i)?.name}\<close>: the name of the first player with that
  identifier; with no such player the optional chain gives \<^verbatim>\<open>undefined\<close>, which a template
  literal prints as the nine letters.
\<close>

definition resolveName :: "Player list \<Rightarrow> string \<Rightarrow> string" where
  "resolveName players i =
     (case find (\<lambda>p. id_p p = i) players of
        None \<Rightarrow> ''undefined''
      | Some p \<Rightarrow> name_p p)"

text \<open>
  One line of the settlements section. \<^verbatim>\<open>formatGBP\<close> is the currency formatter of the
  platform (\<^verbatim>\<open>Intl.NumberFormat\<close>), a parameter here.
\<close>

definition settlementLine :: "(number \<Rightarrow> string) \<Rightarrow> Player list \<Rightarrow> Settlement \<Rightarrow> string" where
  "settlementLine formatGBP players s =
     ''- '' @ resolveName players (from_s s) @ '' pays '' @ resolveName players (to_s s) @
     '': '' @ formatGBP (amount s)"

definition playerLine :: "(number \<Rightarrow> string) \<Rightarrow> Player \<Rightarrow> string" where
  "playerLine formatGBP p =
     ''| '' @ name_p p @ '' | '' @ formatGBP (buyIn p) @ '' | '' @ formatGBP (cashOut p) @
     '' | '' @ formatGBP (jsSub (cashOut p) (buyIn p)) @ '' |''"

definition imbalanceMessages :: "(number \<Rightarrow> string) \<Rightarrow> number \<Rightarrow> number \<Rightarrow> string list" where
  "imbalanceMessages formatGBP difference imbalanceThreshold =
     (if \<not> jsLess (jsAbs difference) cent
      then (if jsLessEq (jsAbs difference) imbalanceThreshold
            then [''Small imbalance of '' @ formatGBP (jsAbs difference) @
                  '' detected (within threshold)'']
            else [if jsGreater difference (Fin 0)
                  then ''Cash-outs exceed buy-ins by '' @ formatGBP difference
                  else ''Buy-ins exceed cash-outs by '' @ formatGBP (jsAbs difference)])
      else [])"

definition reportText :: "(number \<Rightarrow> string) \<Rightarrow> Player list \<Rightarrow> number \<Rightarrow> Settlement list \<Rightarrow> string" where
  "reportText formatGBP players imbalanceThreshold settlements =
     (let totals = calculateTotals players;
          msgs = imbalanceMessages formatGBP (imbalanceOf players) imbalanceThreshold;
          playerResults = join newline (map (playerLine formatGBP) players);
          settlementsList = join newline (map (settlementLine formatGBP players) settlements);
          report =
            ''# Poker Game Settlement Report'' @ newline @ newline @
            ''## Player Results'' @ newline @ newline @
            ''| Player | Buy-in | Cash-out | Net |'' @ newline @
            ''|--------|---------|-----------|-----|'' @ newline @
            playerResults @ newline @ newline @
            ''**Total Buy-ins:** '' @ formatGBP (totalBuyIns totals) @ newline @
            ''**Total Cash-outs:** '' @ formatGBP (totalCashOuts totals);
          report' =
            (if length msgs > 0
             then report @ newline @ newline @ ''## Game Imbalance'' @ newline @
                  join newline (map (\<lambda>msg. ''- '' @ msg) msgs)
             else report)
      in report' @ newline @ newline @ ''## Settlements Required'' @ newline @ newline @
         settlementsList)"

text \<open>
  \<^verbatim>\<open>generateMarkdownReport\<close>: the settlements are those of the engine on the same
  arguments; the report exists when the engine returns.
\<close>

definition generateMarkdownReport :: "(number \<Rightarrow> string) \<Rightarrow> Player list \<Rightarrow> number \<Rightarrow> string option" where
  "generateMarkdownReport formatGBP players imbalanceThreshold =
     map_option (reportText formatGBP players imbalanceThreshold)
       (calculateSettlements players imbalanceThreshold)"

section \<open>Vocabulary of the properties\<close>

text \<open>
  A player of the examples: the name is the identifier, and the amounts are decimals as
  the platform reads them.
\<close>

definition player :: "string \<Rightarrow> rat \<Rightarrow> rat \<Rightarrow> Player" where
  "player i b c = \<lparr>id_p = i, name_p = i, buyIn = double b, cashOut = double c\<rparr>"

text \<open>A balance object of the examples: the name is the identifier.\<close>

definition entry :: "string \<Rightarrow> rat \<Rightarrow> Balance" where
  "entry i x = \<lparr>id_b = i, name_b = i, balance = Fin x\<rparr>"

text \<open>A transfer, written as a triple.\<close>

definition transfer :: "string \<Rightarrow> string \<Rightarrow> rat \<Rightarrow> Settlement" where
  "transfer i j x = \<lparr>from_s = i, to_s = j, amount = Fin x\<rparr>"

text \<open>Four balances of \<open>-1.50\<close>, the part of one example that its run never reaches.\<close>

definition bystanders :: "Balance list" where
  "bystanders =
     [entry ''C'' (- (3 / 2)), entry ''D'' (- (3 / 2)), entry ''E'' (- (3 / 2)),
      entry ''F'' (- (3 / 2))]"

text \<open>The value of a finite number (and zero for the others).\<close>

fun valueOf :: "number \<Rightarrow> rat" where
  "valueOf (Fin x) = x"
| "valueOf n = 0"

text \<open>What a list of transfers makes one identifier pay, and receive, in exact sums.\<close>

definition paidBy :: "Settlement list \<Rightarrow> string \<Rightarrow> rat" where
  "paidBy ts i = sum_list (map (\<lambda>s. valueOf (amount s)) (filter (\<lambda>s. from_s s = i) ts))"

definition receivedBy :: "Settlement list \<Rightarrow> string \<Rightarrow> rat" where
  "receivedBy ts i = sum_list (map (\<lambda>s. valueOf (amount s)) (filter (\<lambda>s. to_s s = i) ts))"

text \<open>The net position of an identifier: cash-out minus buy-in of its player, exactly.\<close>

definition netPosition :: "Player list \<Rightarrow> string \<Rightarrow> rat" where
  "netPosition players i =
     (case find (\<lambda>p. id_p p = i) players of
        None \<Rightarrow> 0
      | Some p \<Rightarrow> valueOf (cashOut p) - valueOf (buyIn p))"

text \<open>
  The adjusted balance of an identifier: the balance the engine computes for its
  player, after the adjustment and the two roundings, before the filter.
\<close>

definition adjustedBalance :: "Player list \<Rightarrow> number \<Rightarrow> string \<Rightarrow> number" where
  "adjustedBalance players imbalanceThreshold i =
     (case find (\<lambda>b. id_b b = i) (map toBalance (adjustPlayers players imbalanceThreshold)) of
        None \<Rightarrow> Fin 0
      | Some b \<Rightarrow> balance b)"

text \<open>A transfer is well-formed: a positive amount, and not to the payer.\<close>

definition wellFormed :: "Settlement \<Rightarrow> bool" where
  "wellFormed s = (jsGreater (amount s) (Fin 0) \<and> from_s s \<noteq> to_s s)"




section \<open>The nearest double\<close>

text \<open>
  The exponent brackets the magnitude; below exponent 1023 a rounded value stays finite;
  a value on a grid that is at least as coarse as the spacing of doubles at its size is
  its own nearest double, as every multiple of a quarter below \<open>2\<^sup>5\<^sup>0\<close> is; and rounding
  does not take anything of magnitude \<open>2\<^sup>-\<^sup>1\<^sup>0\<^sup>7\<^sup>4\<close> or more to zero or across it.
\<close>

lemma overflowBound_code [code]:
  "overflowBound =
     179769313486231590772930519078902473361797697894230657273430081157732675805500963132708477322407536021120113879871393357658789768814416622492847430639474124377767893424865485276302219601246094119453082952085005768838150682342462881473913110540827237163350510684586298239947245938479716304835356329624224137216"
  by (simp add: overflowBound_def)

lemma bitlen_lower: "0 < p \<Longrightarrow> (2::rat) powi (bitlen p - 1) \<le> of_int p"
proof -
  assume p: "0 < p"
  then have b: "1 \<le> bitlen p"
    using bitlen_eq_zero_iff [of p] bitlen_nonneg [of p] by linarith
  from bitlen_bounds [OF p] have "(2::int) ^ nat (bitlen p - 1) \<le> p" by simp
  then have "(of_int ((2::int) ^ nat (bitlen p - 1)) :: rat) \<le> of_int p"
    by (simp only: of_int_le_iff)
  then have "(2::rat) ^ nat (bitlen p - 1) \<le> of_int p" by simp
  with b show ?thesis by (simp add: power_int_nonneg_exp)
qed

lemma bitlen_upper: "0 < q \<Longrightarrow> (of_int q :: rat) < 2 powi bitlen q"
proof -
  assume q: "0 < q"
  from bitlen_bounds [OF q] have "q < (2::int) ^ nat (bitlen q)" by simp
  then have "(of_int q :: rat) < of_int ((2::int) ^ nat (bitlen q))"
    by (simp only: of_int_less_iff)
  then have "(of_int q :: rat) < 2 ^ nat (bitlen q)" by simp
  with bitlen_nonneg [of q] show ?thesis by (simp add: power_int_nonneg_exp)
qed

lemma exponentOf_lower:
  assumes "x \<noteq> 0"
  shows "2 powi exponentOf x \<le> \<bar>x\<bar>"
proof -
  obtain p q where pq: "quotient_of \<bar>x\<bar> = (p, q)"
    by (cases "quotient_of \<bar>x\<bar>")
  then have q: "0 < q" and x: "\<bar>x\<bar> = of_int p / of_int q"
    by (simp_all add: quotient_of_denom_pos quotient_of_div)
  from assms have "0 < \<bar>x\<bar>" by simp
  with x q have p: "0 < p"
    by (simp add: zero_less_divide_iff)
  let ?d = "bitlen p - bitlen q"
  have "2 powi (?d - 1) \<le> \<bar>x\<bar>"
  proof -
    have "(2::rat) powi (?d - 1) * of_int q \<le> 2 powi (?d - 1) * 2 powi bitlen q"
      using bitlen_upper [OF q] by (intro mult_left_mono) simp_all
    also have "\<dots> = 2 powi (bitlen p - 1)"
      by (simp flip: power_int_add)
    also have "\<dots> \<le> of_int p"
      using p by (rule bitlen_lower)
    finally show ?thesis
      using q by (simp add: x pos_le_divide_eq)
  qed
  then show ?thesis
    by (simp add: exponentOf_def pq Let_def)
qed

lemma exponentOf_upper:
  assumes "x \<noteq> 0"
  shows "\<bar>x\<bar> < 2 powi (exponentOf x + 1)"
proof -
  obtain p q where pq: "quotient_of \<bar>x\<bar> = (p, q)"
    by (cases "quotient_of \<bar>x\<bar>")
  then have q: "0 < q" and x: "\<bar>x\<bar> = of_int p / of_int q"
    by (simp_all add: quotient_of_denom_pos quotient_of_div)
  from assms have "0 < \<bar>x\<bar>" by simp
  with x q have p: "0 < p"
    by (simp add: zero_less_divide_iff)
  let ?d = "bitlen p - bitlen q"
  have "\<bar>x\<bar> < 2 powi (?d + 1)"
  proof -
    have "of_int p < (2::rat) powi bitlen p"
      using p by (rule bitlen_upper)
    also have "\<dots> = 2 powi (?d + 1) * 2 powi (bitlen q - 1)"
      by (simp flip: power_int_add)
    also have "\<dots> \<le> 2 powi (?d + 1) * of_int q"
      using bitlen_lower [OF q] by (intro mult_left_mono) simp_all
    finally show ?thesis
      using q by (simp add: x pos_divide_less_eq)
  qed
  then show ?thesis
    by (simp add: exponentOf_def pq Let_def)
qed

lemma roundHalfEven_bounds:
  "of_int (roundHalfEven q) \<le> q + 1 / 2 \<and> q - 1 / 2 \<le> of_int (roundHalfEven q)"
proof -
  define f where "f = \<lfloor>q\<rfloor>"
  have lo: "of_int f \<le> q" and hi: "q < of_int f + 1"
    unfolding f_def by linarith+
  have "roundHalfEven q = f \<and> q - of_int f \<le> 1 / 2
        \<or> roundHalfEven q = f + 1 \<and> 1 / 2 \<le> q - of_int f"
    unfolding roundHalfEven_def f_def [symmetric] Let_def by auto
  with lo hi show ?thesis
    by auto
qed

lemma abs_roundHalfEven: "\<bar>of_int (roundHalfEven q) :: rat\<bar> \<le> \<bar>q\<bar> + 1 / 2"
  using roundHalfEven_bounds [of q] by linarith

lemma roundHalfEven_of_int: "roundHalfEven (of_int n) = n"
  by (simp add: roundHalfEven_def)

lemma roundHalfEven_pos: "1 \<le> q \<Longrightarrow> 1 \<le> roundHalfEven q"
proof -
  assume "1 \<le> q"
  then have "of_int 1 \<le> q" by simp
  then have "1 \<le> \<lfloor>q\<rfloor>" by (simp only: le_floor_iff)
  then show ?thesis
    by (auto simp: roundHalfEven_def Let_def)
qed

lemma double_finite:
  assumes "x \<noteq> 0" and "exponentOf x < 1023"
  shows "double x =
    Fin (of_int (roundHalfEven (x / 2 powi (max (exponentOf x) (- 1022) - 52)))
           * 2 powi (max (exponentOf x) (- 1022) - 52))"
proof -
  let ?j = "max (exponentOf x) (- 1022) - 52"
  let ?u = "(2::rat) powi ?j"
  let ?n = "roundHalfEven (x / ?u)"
  have u: "0 < ?u" by simp
  have "\<bar>of_int ?n :: rat\<bar> \<le> \<bar>x / ?u\<bar> + 1 / 2"
    by (rule abs_roundHalfEven)
  then have "\<bar>of_int ?n\<bar> * ?u \<le> (\<bar>x / ?u\<bar> + 1 / 2) * ?u"
    using u by (intro mult_right_mono) simp_all
  also have "\<dots> = \<bar>x\<bar> + ?u / 2"
    using u by (simp add: field_simps abs_mult)
  finally have "\<bar>of_int ?n * ?u\<bar> \<le> \<bar>x\<bar> + ?u / 2"
    using u by (simp add: abs_mult)
  moreover have "\<bar>x\<bar> < 2 powi 1023"
  proof -
    have "\<bar>x\<bar> < 2 powi (exponentOf x + 1)"
      using assms(1) by (rule exponentOf_upper)
    also have "\<dots> \<le> 2 powi 1023"
      using assms(2) by (intro power_int_increasing) simp_all
    finally show ?thesis .
  qed
  moreover have "?u \<le> 2 powi 1023"
    using assms(2) by (intro power_int_increasing) simp_all
  ultimately have "\<bar>of_int ?n * ?u\<bar> < 2 powi 1023 + 2 powi 1023 / 2"
    by linarith
  also have "\<dots> \<le> overflowBound"
    by (simp add: overflowBound_def)
  finally have "\<not> overflowBound \<le> \<bar>of_int ?n * ?u\<bar>"
    by simp
  with assms(1) show ?thesis
    by (simp add: double_def Let_def)
qed

lemma double_slow:
  "double x =
     (if x = 0 then Fin 0
      else let u = 2 powi (max (exponentOf x) (- 1022) - 52);
               y = of_int (roundHalfEven (x / u)) * u
           in if exponentOf x < 1023 then Fin y
              else if overflowBound \<le> \<bar>y\<bar> then (if 0 < x then PInf else NInf) else Fin y)"
  by (simp add: double_finite Let_def) (simp add: double_def Let_def)

lemma double_zero: "double 0 = Fin 0"
  by (simp add: double_def)

lemma powi_less_cancel: "(2::rat) powi a < 2 powi b \<Longrightarrow> a < b"
proof (rule ccontr)
  assume less: "(2::rat) powi a < 2 powi b" and "\<not> a < b"
  then have "b \<le> a" by simp
  then have "(2::rat) powi b \<le> 2 powi a"
    by (rule power_int_increasing) simp
  with less show False by simp
qed

lemma double_exact:
  assumes x: "x \<noteq> 0" and small: "\<bar>x\<bar> < 2 powi m" and m: "m \<le> 1023"
    and grid: "x = of_int k * 2 powi g" and g: "m - 53 \<le> g" "- 1074 \<le> g"
  shows "double x = Fin x"
proof -
  let ?e = "exponentOf x"
  let ?j = "max ?e (- 1022) - 52"
  have "2 powi ?e \<le> \<bar>x\<bar>"
    using x by (rule exponentOf_lower)
  with small have "(2::rat) powi ?e < 2 powi m" by simp
  then have e: "?e < m" by (rule powi_less_cancel)
  with m have fin: "?e < 1023" by simp
  from e g have j: "?j \<le> g" by simp
  have u: "(2::rat) powi ?j \<noteq> 0" by simp
  have "x / 2 powi ?j = of_int k * (2 powi g / 2 powi ?j)"
    by (simp only: grid times_divide_eq_right)
  also have "(2::rat) powi g / 2 powi ?j = 2 powi (g - ?j)"
    by (simp add: power_int_diff)
  also have "(2::rat) powi (g - ?j) = 2 ^ nat (g - ?j)"
    using j by (simp add: power_int_nonneg_exp)
  also have "of_int k * (2::rat) ^ nat (g - ?j) = of_int (k * 2 ^ nat (g - ?j))"
    by simp
  finally have q: "x / 2 powi ?j = of_int (k * 2 ^ nat (g - ?j))" .
  then have "roundHalfEven (x / 2 powi ?j) = k * 2 ^ nat (g - ?j)"
    by (simp only: roundHalfEven_of_int)
  moreover from u have "x = x / 2 powi ?j * 2 powi ?j"
    by simp
  then have "x = of_int (k * 2 ^ nat (g - ?j)) * 2 powi ?j"
    by (simp only: q)
  ultimately have "of_int (roundHalfEven (x / 2 powi ?j)) * 2 powi ?j = x"
    by (simp only:)
  then show ?thesis
    by (simp only: double_finite [OF x fin])
qed

lemma double_quarter:
  assumes "\<bar>k\<bar> < 2 ^ 52"
  shows "double (of_int k / 4) = Fin (of_int k / 4)"
proof (cases "k = 0")
  case True
  then show ?thesis by (simp add: double_zero)
next
  case False
  then have nz: "(of_int k / 4 :: rat) \<noteq> 0" by simp
  have "\<bar>of_int k :: rat\<bar> < of_int (2 ^ 52)"
    using assms by (simp only: of_int_abs [symmetric] of_int_less_iff)
  then have "\<bar>of_int k :: rat\<bar> < 2 ^ 52" by simp
  then have "\<bar>of_int k / 4 :: rat\<bar> < 2 ^ 50" by simp
  then have small: "\<bar>of_int k / 4 :: rat\<bar> < 2 powi 50" by simp
  have grid: "(of_int k / 4 :: rat) = of_int k * 2 powi (- 2)"
    by (simp add: power_int_minus)
  show ?thesis
    by (rule double_exact [OF nz small _ grid]) simp_all
qed

lemma spacing_below:
  assumes "x \<noteq> 0" and "2 powi (- 1074) \<le> \<bar>x\<bar>"
  shows "2 powi (max (exponentOf x) (- 1022) - 52) \<le> \<bar>x\<bar>"
proof (cases "- 1022 \<le> exponentOf x")
  case True
  have "(2::rat) powi (exponentOf x - 52) \<le> 2 powi exponentOf x"
    by (rule power_int_increasing) simp_all
  also have "\<dots> \<le> \<bar>x\<bar>"
    using assms(1) by (rule exponentOf_lower)
  finally show ?thesis
    using True by (simp add: max_def)
next
  case False
  with assms(2) show ?thesis
    by (simp add: max_def)
qed

lemma double_sign:
  assumes "2 powi (- 1074) \<le> \<bar>x\<bar>"
  shows "if 0 < x then jsLess (Fin 0) (double x) else jsLess (double x) (Fin 0)"
proof -
  let ?u = "(2::rat) powi (max (exponentOf x) (- 1022) - 52)"
  let ?n = "roundHalfEven (x / ?u)"
  have u: "0 < ?u" by simp
  from assms have x: "x \<noteq> 0"
    by auto
  from spacing_below [OF x assms] u have q: "1 \<le> \<bar>x\<bar> / ?u"
    by (simp add: pos_le_divide_eq)
  show ?thesis
  proof (cases "0 < x")
    case True
    with q have "1 \<le> x / ?u" by simp
    with roundHalfEven_bounds [of "x / ?u"] have "(1::rat) / 2 \<le> of_int ?n" by linarith
    then have "(0::rat) < of_int ?n" by linarith
    then have "0 < of_int ?n * ?u" using u by (simp add: zero_less_mult_iff)
    with True x show ?thesis
      by (simp add: double_def Let_def)
  next
    case False
    with x have neg: "x < 0" by simp
    with q have "x / ?u \<le> - 1" by simp
    with roundHalfEven_bounds [of "x / ?u"] have "of_int ?n \<le> - (1::rat) / 2" by linarith
    then have "of_int ?n < (0::rat)" by linarith
    then have "of_int ?n * ?u < 0" using u by (simp add: mult_less_0_iff)
    with neg x show ?thesis
      by (simp add: double_def Let_def)
  qed
qed

lemma double_code [code]:
  "double x =
     (if of_int \<lfloor>x * 4\<rfloor> = x * 4 \<and> \<bar>x\<bar> < 1125899906842624 then Fin x
      else if x = 0 then Fin 0
      else let u = 2 powi (max (exponentOf x) (- 1022) - 52);
               y = of_int (roundHalfEven (x / u)) * u
           in if exponentOf x < 1023 then Fin y
              else if overflowBound \<le> \<bar>y\<bar> then (if 0 < x then PInf else NInf) else Fin y)"
proof (cases "of_int \<lfloor>x * 4\<rfloor> = x * 4 \<and> \<bar>x\<bar> < 1125899906842624")
  case True
  define k where "k = \<lfloor>x * 4\<rfloor>"
  from True have eq: "of_int k = x * 4" and small: "\<bar>x\<bar> < 1125899906842624"
    unfolding k_def by blast+
  from eq have x: "x = of_int k / 4"
    by linarith
  from eq small have "\<bar>of_int k :: rat\<bar> < of_int (2 ^ 52)"
    by simp
  then have "\<bar>k\<bar> < 2 ^ 52"
    by (simp only: of_int_abs [symmetric] of_int_less_iff)
  from double_quarter [OF this] have "double x = Fin x"
    by (simp only: x [symmetric])
  then show ?thesis
    by (simp only: if_P [OF True])
next
  case False
  then show ?thesis
    by (simp only: if_False double_slow [symmetric])
qed

lemma cent_code [code]: "cent = Fin (5764607523034235 / 576460752303423488)"
  unfolding cent_def by code_simp

section \<open>Comparisons\<close>

lemma jsLess_asym: "jsLess a b \<Longrightarrow> \<not> jsLess b a"
  by (cases a; cases b) simp_all

lemma jsGreater_abs_cent:
  assumes "jsGreater (jsAbs a) cent"
  shows "jsLess a (Fin 0) \<or> jsGreater a (Fin 0)"
  using assms by (cases a) (auto simp: jsGreater_def cent_code)

lemma toFixed2_above_cent:
  assumes "jsGreater a cent"
  shows "jsGreater (toFixed2 a) (Fin 0)"
proof (cases a)
  case (Fin x)
  with assms have x: "5764607523034235 / 576460752303423488 < x"
    by (simp add: jsGreater_def cent_code)
  show ?thesis
  proof (cases "10 ^ 21 \<le> \<bar>x\<bar>")
    case True
    with x Fin show ?thesis by (simp add: jsGreater_def)
  next
    case False
    from x have "of_int 1 \<le> x * 100 + 1 / 2" by simp
    then have "1 \<le> \<lfloor>x * 100 + 1 / 2\<rfloor>" by (simp only: le_floor_iff)
    then have "(1::rat) \<le> of_int \<lfloor>x * 100 + 1 / 2\<rfloor>" by simp
    then have big: "(1::rat) / 100 \<le> of_int \<lfloor>x * 100 + 1 / 2\<rfloor> / 100" by simp
    have tiny: "(2::rat) powi (- 1074) \<le> 1 / 100"
    proof -
      have "(2::rat) powi (- 1074) \<le> 2 powi (- 7)"
        by (rule power_int_increasing) simp_all
      also have "\<dots> \<le> 1 / 100" by (simp add: power_int_minus)
      finally show ?thesis .
    qed
    from big tiny have "2 powi (- 1074) \<le> \<bar>of_int \<lfloor>x * 100 + 1 / 2\<rfloor> / 100 :: rat\<bar>"
      by linarith
    from double_sign [OF this] big
    have "jsLess (Fin 0) (double (of_int \<lfloor>x * 100 + 1 / 2\<rfloor> / 100))"
      by (simp split: if_splits)
    with x False Fin show ?thesis
      by (simp add: jsGreater_def)
  qed
qed (use assms in \<open>simp_all add: jsGreater_def cent_code\<close>)

lemma amount_above_cent:
  assumes "jsGreater (jsAbs d) cent" and "jsGreater (jsAbs c) cent"
    and "jsGreater (jsMin (jsAbs d) c) (Fin 0)"
  shows "jsGreater (jsMin (jsAbs d) c) cent"
  using assms
  by (cases d; cases c) (auto simp: jsGreater_def jsMin_def cent_code split: if_splits)

section \<open>Unfolding the loop\<close>

lemma settleLoop_step:
  "length bs > 1 \<Longrightarrow>
   settleLoop bs acc = settleLoop (fst (settleStep bs acc)) (snd (settleStep bs acc))"
  by (subst settleLoop.simps) simp

lemma settleLoop_done: "\<not> length bs > 1 \<Longrightarrow> settleLoop bs acc = Some acc"
  by (subst settleLoop.simps) simp

lemma fst_settleStep: "fst (settleStep bs acc) = fst (settleStep bs [])"
  by (simp add: settleStep_def Let_def)

text \<open>
  An invariant of the loop body holds of the result, when the loop returns, together
  with some list of at most one balance.
\<close>

lemma settleLoop_invariant:
  assumes ret: "settleLoop bs acc = Some ts"
    and init: "I bs acc"
    and step: "\<And>bs acc. I bs acc \<Longrightarrow> length bs > 1 \<Longrightarrow>
                 I (fst (settleStep bs acc)) (snd (settleStep bs acc))"
  shows "\<exists>bs'. \<not> length bs' > 1 \<and> I bs' ts"
proof -
  have "I bs acc \<longrightarrow> (\<exists>bs'. \<not> length bs' > 1 \<and> I bs' ts)"
  proof (rule settleLoop.raw_induct
      [where P = "\<lambda>bs acc ts. I bs acc \<longrightarrow> (\<exists>bs'. \<not> length bs' > 1 \<and> I bs' ts)", OF _ ret])
    fix loop :: "Balance list \<Rightarrow> Settlement list \<Rightarrow> Settlement list option"
    fix bs acc ts
    assume IH: "\<And>bs acc ts. loop bs acc = Some ts \<Longrightarrow>
        I bs acc \<longrightarrow> (\<exists>bs'. \<not> length bs' > 1 \<and> I bs' ts)"
    assume eq: "(if 1 < length bs then loop (fst (settleStep bs acc)) (snd (settleStep bs acc))
                else Some acc) = Some ts"
    show "I bs acc \<longrightarrow> (\<exists>bs'. \<not> length bs' > 1 \<and> I bs' ts)"
    proof
      assume inv: "I bs acc"
      show "\<exists>bs'. \<not> length bs' > 1 \<and> I bs' ts"
      proof (cases "length bs > 1")
        case True
        with eq have "loop (fst (settleStep bs acc)) (snd (settleStep bs acc)) = Some ts"
          by simp
        from IH [OF this] step [OF inv True] show ?thesis by blast
      next
        case False
        with eq have "ts = acc" by simp
        with inv False show ?thesis by blast
      qed
    qed
  qed
  with init show ?thesis by blast
qed

section \<open>The sort\<close>

lemma set_insertBalance: "set (insertBalance a bs) = insert a (set bs)"
  by (induction bs) auto

lemma length_insertBalance: "length (insertBalance a bs) = Suc (length bs)"
  by (induction bs) auto

lemma ids_insertBalance:
  "distinct (map id_b (insertBalance a bs)) = distinct (map id_b (a # bs))"
  by (induction bs) (auto simp: set_insertBalance)

lemma set_sortBalances: "set (sortBalances bs) = set bs"
  by (induction bs) (simp_all add: sortBalances_def set_insertBalance)

lemma length_sortBalances: "length (sortBalances bs) = length bs"
  by (induction bs) (simp_all add: sortBalances_def length_insertBalance)

lemma distinct_ids_sortBalances:
  "distinct (map id_b (sortBalances bs)) = distinct (map id_b bs)"
proof (induction bs)
  case Nil
  then show ?case by (simp add: sortBalances_def)
next
  case (Cons a bs)
  have "sortBalances (a # bs) = insertBalance a (sortBalances bs)"
    by (simp add: sortBalances_def)
  with Cons set_sortBalances [of bs] show ?case
    by (simp add: ids_insertBalance)
qed

lemma sortBalances_shape:
  assumes "length bs > 1"
  obtains x y rest where "sortBalances bs = x # y # rest"
proof -
  have "length (sortBalances bs) > 1" using assms by (simp add: length_sortBalances)
  then show ?thesis
    using that by (cases "sortBalances bs"; cases "tl (sortBalances bs)") auto
qed

section \<open>The two shapes of an iteration\<close>

lemma settleStep_debtor_first:
  assumes "sortBalances bs = x # y # rest" and "jsLess (balance x) (Fin 0)"
  shows "settleStep bs acc =
    (filter unsettled
       (x\<lparr>balance := toFixed2 (jsAdd (balance x) (jsMin (jsAbs (balance x)) (balance y)))\<rparr> #
        y\<lparr>balance := toFixed2 (jsSub (balance y) (jsMin (jsAbs (balance x)) (balance y)))\<rparr> #
        rest),
     if jsGreater (jsMin (jsAbs (balance x)) (balance y)) (Fin 0)
     then acc @ [\<lparr>from_s = id_b x, to_s = id_b y,
                  amount = toFixed2 (jsMin (jsAbs (balance x)) (balance y))\<rparr>]
     else acc)"
  using assms jsLess_asym [of "balance x" "Fin 0"]
  by (simp add: settleStep_def debtorIndex_def creditorIndex_def transferAmount_def Let_def
        jsGreater_def)

lemma settleStep_creditor_first:
  assumes "sortBalances bs = x # y # rest" and "jsGreater (balance x) (Fin 0)"
  shows "settleStep bs acc =
    (filter unsettled
       (x\<lparr>balance := toFixed2 (jsSub (balance x) (jsMin (jsAbs (balance y)) (balance x)))\<rparr> #
        y\<lparr>balance := toFixed2 (jsAdd (balance y) (jsMin (jsAbs (balance y)) (balance x)))\<rparr> #
        rest),
     if jsGreater (jsMin (jsAbs (balance y)) (balance x)) (Fin 0)
     then acc @ [\<lparr>from_s = id_b y, to_s = id_b x,
                  amount = toFixed2 (jsMin (jsAbs (balance y)) (balance x))\<rparr>]
     else acc)"
  using assms jsLess_asym [of "Fin 0" "balance x"]
  by (simp add: settleStep_def debtorIndex_def creditorIndex_def transferAmount_def Let_def
        jsGreater_def)

section \<open>The imbalance check\<close>

text \<open>
  Claim C2. Whenever the magnitude of total cash-outs minus total buy-ins, as the
  engine computes them, is strictly greater than the threshold, \<open>calculateSettlements\<close>
  returns the empty list of transfers. This holds for every threshold, the non-negative
  ones among them. In the example the matching loop, had it run, would have emitted a
  transfer.
\<close>

theorem calculateSettlements_refuses:
  assumes "jsGreater
             (jsAbs (jsSub (totalCashOuts (calculateTotals players))
                           (totalBuyIns (calculateTotals players))))
             imbalanceThreshold"
  shows "calculateSettlements players imbalanceThreshold = Some []"
  using assms by (simp add: calculateSettlements_def imbalanceOf_def)

theorem calculateSettlements_refuses_witness:
  "jsGreater
     (jsAbs (jsSub (totalCashOuts (calculateTotals [player ''A'' 100 0, player ''B'' 0 150]))
                   (totalBuyIns (calculateTotals [player ''A'' 100 0, player ''B'' 0 150]))))
     (Fin 1)
   \<and> calculateSettlements [player ''A'' 100 0, player ''B'' 0 150] (Fin 1) = Some []
   \<and> settleLoop (initialBalances [player ''A'' 100 0, player ''B'' 0 150] (Fin 1)) []
       = Some [transfer ''A'' ''B'' 100]"
proof -
  have h: "jsGreater
     (jsAbs (jsSub (totalCashOuts (calculateTotals [player ''A'' 100 0, player ''B'' 0 150]))
                   (totalBuyIns (calculateTotals [player ''A'' 100 0, player ''B'' 0 150]))))
     (Fin 1)"
    by code_simp
  have loop: "settleLoop (initialBalances [player ''A'' 100 0, player ''B'' 0 150] (Fin 1)) []
       = Some [transfer ''A'' ''B'' 100]"
    by code_simp
  show ?thesis
    using h loop calculateSettlements_refuses [OF h] by simp
qed

text \<open>
  The totals are sums of doubles: cash-outs of \<open>2\<^sup>5\<^sup>3\<close> and 1 add up to \<open>2\<^sup>5\<^sup>3\<close>, the
  imbalance against a buy-in of \<open>2\<^sup>5\<^sup>3\<close> is zero, and the engine settles.
\<close>

lemma rounded_sum_refuses:
  "calculateSettlements [player ''A'' 9007199254740992 0, player ''B'' 0 9007199254740992,
                         player ''C'' 0 1] (Fin 0)
     = Some [transfer ''A'' ''B'' 9007199254740992]"
  by code_simp











text \<open>
  The computed totals are what counts: buy-ins of 10.10 and 20.20 add up to
  30.299999999999997, not to the cash-out of 30.30, and the engine refuses.
\<close>

lemma decimal_totals_refused:
  "totalBuyIns (calculateTotals
      [player ''A'' (101 / 10) 0, player ''B'' (202 / 10) 0, player ''C'' 0 (303 / 10)])
     = Fin (2132172948583219 / 70368744177664)
   \<and> totalCashOuts (calculateTotals
      [player ''A'' (101 / 10) 0, player ''B'' (202 / 10) 0, player ''C'' 0 (303 / 10)])
     = Fin (8528691794332877 / 281474976710656)
   \<and> calculateSettlements
      [player ''A'' (101 / 10) 0, player ''B'' (202 / 10) 0, player ''C'' 0 (303 / 10)] (Fin 0)
     = Some []"
  by code_simp

section \<open>Two balances of the same sign at the head of the list\<close>

text \<open>
  The loop takes positions 0 and 1 of the list ordered by magnitude, and calls debtor
  position 0 if it is negative and position 1 otherwise, creditor position 0 if it is
  positive and position 1 otherwise. Nothing makes the two have opposite signs. The four
  runs below are on balanced games of whole and half amounts at threshold 0.
\<close>

text \<open>
  Claim C3 (at every iteration the two largest balances have opposite signs, so that the
  debtor's is negative and the creditor's positive), on the game in which A and B each
  won 5 and C, D, E lost 4, 3, 3: the first iteration sees 5 and 5 at the head, and its
  debtor is B, with a balance of \<open>+5\<close>; B pays A 5 and then receives 10.
\<close>

theorem two_winners_first_iteration:
  "sortBalances
     (initialBalances
        [player ''A'' 0 5, player ''B'' 0 5, player ''C'' 4 0, player ''D'' 3 0,
         player ''E'' 3 0] (Fin 0))
     = [entry ''A'' 5, entry ''B'' 5, entry ''C'' (- 4), entry ''D'' (- 3), entry ''E'' (- 3)]
   \<and> debtorIndex [entry ''A'' 5, entry ''B'' 5, entry ''C'' (- 4), entry ''D'' (- 3),
                   entry ''E'' (- 3)] = 1
   \<and> creditorIndex [entry ''A'' 5, entry ''B'' 5, entry ''C'' (- 4), entry ''D'' (- 3),
                     entry ''E'' (- 3)] = 0
   \<and> balance ([entry ''A'' 5, entry ''B'' 5, entry ''C'' (- 4), entry ''D'' (- 3),
                 entry ''E'' (- 3)]
                ! debtorIndex [entry ''A'' 5, entry ''B'' 5, entry ''C'' (- 4), entry ''D'' (- 3),
                               entry ''E'' (- 3)]) = Fin 5
   \<and> calculateSettlements
        [player ''A'' 0 5, player ''B'' 0 5, player ''C'' 4 0, player ''D'' 3 0,
         player ''E'' 3 0] (Fin 0)
       = Some [transfer ''B'' ''A'' 5, transfer ''C'' ''B'' 4, transfer ''D'' ''B'' 3,
               transfer ''E'' ''B'' 3]"
  by code_simp

text \<open>
  Claim C4 (no player pays more than the deficit, or receives more than the surplus, of
  the adjusted balance), on the game in which A and B each lost 5 and C, D, E won 4, 3,
  3: the first iteration moves the debt of B onto A without a transfer, and A, whose
  adjusted balance is \<open>-5\<close>, pays 10.
\<close>

theorem two_losers_overpaid:
  "calculateSettlements
     [player ''A'' 5 0, player ''B'' 5 0, player ''C'' 0 4, player ''D'' 0 3,
      player ''E'' 0 3] (Fin 0)
     = Some [transfer ''A'' ''C'' 4, transfer ''A'' ''D'' 3, transfer ''A'' ''E'' 3]
   \<and> paidBy [transfer ''A'' ''C'' 4, transfer ''A'' ''D'' 3, transfer ''A'' ''E'' 3] ''A'' = 10
   \<and> adjustedBalance
        [player ''A'' 5 0, player ''B'' 5 0, player ''C'' 0 4, player ''D'' 0 3,
         player ''E'' 0 3] (Fin 0) ''A'' = Fin (- 5)
   \<and> paidBy [transfer ''A'' ''C'' 4, transfer ''A'' ''D'' 3, transfer ''A'' ''E'' 3] ''B'' = 0
   \<and> adjustedBalance
        [player ''A'' 5 0, player ''B'' 5 0, player ''C'' 0 4, player ''D'' 0 3,
         player ''E'' 0 3] (Fin 0) ''B'' = Fin (- 5)"
  by code_simp

text \<open>
  Claim C5 (at most \<open>playerCount - 1\<close> transfers, every step removing a balance), on the
  game in which A and B won 5 and 4 and C, D, E lost 3 each: the first iteration pairs
  the two winners, emits a transfer and removes no balance; five transfers come out
  for five players.
\<close>

theorem five_players_five_transfers:
  "calculateSettlements
     [player ''A'' 0 5, player ''B'' 0 4, player ''C'' 3 0, player ''D'' 3 0,
      player ''E'' 3 0] (Fin 0)
     = Some [transfer ''B'' ''A'' 4, transfer ''C'' ''B'' 3, transfer ''D'' ''B'' 3,
             transfer ''E'' ''B'' 2, transfer ''E'' ''A'' 1]
   \<and> length (fst (settleStep
        (initialBalances
           [player ''A'' 0 5, player ''B'' 0 4, player ''C'' 3 0, player ''D'' 3 0,
            player ''E'' 3 0] (Fin 0)) [])) = 5"
  by code_simp

text \<open>
  A game that the loop never leaves: A and B won 4 and 2, and C, D, E, F lost 1.50 each.
  The loop pairs A with B, B pays A 2, and the balances become 2 and 4; from then on each
  iteration swaps the two and emits one more transfer.
\<close>

lemma cycle_enter:
  "fst (settleStep (entry ''A'' 4 # entry ''B'' 2 # bystanders) [])
     = entry ''A'' 2 # entry ''B'' 4 # bystanders"
  by code_simp

lemma cycle_there:
  "fst (settleStep (entry ''A'' 2 # entry ''B'' 4 # bystanders) [])
     = entry ''B'' 2 # entry ''A'' 4 # bystanders"
  by code_simp

lemma cycle_back:
  "fst (settleStep (entry ''B'' 2 # entry ''A'' 4 # bystanders) [])
     = entry ''A'' 2 # entry ''B'' 4 # bystanders"
  by code_simp

lemma cycle_never_returns:
  assumes "settleLoop bs acc = Some ts"
  shows "bs \<notin> {entry ''A'' 4 # entry ''B'' 2 # bystanders,
                 entry ''A'' 2 # entry ''B'' 4 # bystanders,
                 entry ''B'' 2 # entry ''A'' 4 # bystanders}"
proof (rule settleLoop.raw_induct
    [where P = "\<lambda>bs acc ts. bs \<notin> {entry ''A'' 4 # entry ''B'' 2 # bystanders,
       entry ''A'' 2 # entry ''B'' 4 # bystanders, entry ''B'' 2 # entry ''A'' 4 # bystanders}",
     OF _ assms])
  fix loop :: "Balance list \<Rightarrow> Settlement list \<Rightarrow> Settlement list option"
  fix bs acc ts
  assume IH: "\<And>bs acc ts. loop bs acc = Some ts \<Longrightarrow>
      bs \<notin> {entry ''A'' 4 # entry ''B'' 2 # bystanders,
       entry ''A'' 2 # entry ''B'' 4 # bystanders, entry ''B'' 2 # entry ''A'' 4 # bystanders}"
  assume eq: "(if 1 < length bs then loop (fst (settleStep bs acc)) (snd (settleStep bs acc))
              else Some acc) = Some ts"
  show "bs \<notin> {entry ''A'' 4 # entry ''B'' 2 # bystanders,
       entry ''A'' 2 # entry ''B'' 4 # bystanders, entry ''B'' 2 # entry ''A'' 4 # bystanders}"
  proof
    assume mem: "bs \<in> {entry ''A'' 4 # entry ''B'' 2 # bystanders,
       entry ''A'' 2 # entry ''B'' 4 # bystanders, entry ''B'' 2 # entry ''A'' 4 # bystanders}"
    then have len: "length bs > 1" by auto
    from mem have next_in: "fst (settleStep bs acc) \<in> {entry ''A'' 4 # entry ''B'' 2 # bystanders,
       entry ''A'' 2 # entry ''B'' 4 # bystanders, entry ''B'' 2 # entry ''A'' 4 # bystanders}"
      using cycle_enter cycle_there cycle_back by (subst fst_settleStep) auto
    from len eq have "loop (fst (settleStep bs acc)) (snd (settleStep bs acc)) = Some ts"
      by simp
    from IH [OF this] next_in show False by blast
  qed
qed

lemma cycle_game_balances:
  "imbalanceOf
     [player ''A'' 0 4, player ''B'' 0 2, player ''C'' (3 / 2) 0, player ''D'' (3 / 2) 0,
      player ''E'' (3 / 2) 0, player ''F'' (3 / 2) 0] = Fin 0
   \<and> initialBalances
       [player ''A'' 0 4, player ''B'' 0 2, player ''C'' (3 / 2) 0, player ''D'' (3 / 2) 0,
        player ''E'' (3 / 2) 0, player ''F'' (3 / 2) 0] (Fin 0)
      = entry ''A'' 4 # entry ''B'' 2 # bystanders"
  by code_simp

text \<open>
  Claim C6 (the engine always terminates, within as many iterations as there are
  players), on that game: the call never returns.
\<close>

theorem two_winners_never_return:
  "calculateSettlements
     [player ''A'' 0 4, player ''B'' 0 2, player ''C'' (3 / 2) 0, player ''D'' (3 / 2) 0,
      player ''E'' (3 / 2) 0, player ''F'' (3 / 2) 0] (Fin 0) = None"
proof (cases "settleLoop (entry ''A'' 4 # entry ''B'' 2 # bystanders) []")
  case None
  then show ?thesis
    by (simp add: calculateSettlements_def cycle_game_balances jsGreater_def)
next
  case (Some ts)
  from cycle_never_returns [OF this] show ?thesis
    by simp
qed

section \<open>Well-formed transfers\<close>

lemma well_formed_step:
  assumes dist: "distinct (map id_b bs)"
    and uns: "\<forall>b\<in>set bs. unsettled b"
    and wf: "\<forall>s\<in>set acc. wellFormed s"
    and len: "length bs > 1"
  shows "distinct (map id_b (fst (settleStep bs acc)))
         \<and> (\<forall>b\<in>set (fst (settleStep bs acc)). unsettled b)
         \<and> (\<forall>s\<in>set (snd (settleStep bs acc)). wellFormed s)"
proof -
  from len obtain x y rest where shape: "sortBalances bs = x # y # rest"
    by (rule sortBalances_shape)
  have "set (x # y # rest) = set bs"
    using set_sortBalances [of bs] shape by simp
  then have ux: "jsGreater (jsAbs (balance x)) cent" and uy: "jsGreater (jsAbs (balance y)) cent"
    using uns by (auto simp: unsettled_def)
  have d: "distinct (map id_b (x # y # rest))"
    using distinct_ids_sortBalances [of bs] shape dist by simp
  then have ne: "id_b x \<noteq> id_b y" by auto
  have pushed: "wellFormed \<lparr>from_s = i, to_s = j, amount = toFixed2 a\<rparr>"
    if "i \<noteq> j" and "jsGreater a cent" for i j a
    using that toFixed2_above_cent [of a] by (simp add: wellFormed_def)
  have result: "distinct (map id_b (fst st)) \<and> (\<forall>b\<in>set (fst st). unsettled b)
                \<and> (\<forall>s\<in>set (snd st). wellFormed s)"
    if st: "st = (filter unsettled (x' # y' # rest),
                  if jsGreater a (Fin 0)
                  then acc @ [\<lparr>from_s = i, to_s = j, amount = toFixed2 a\<rparr>] else acc)"
      and x': "id_b x' = id_b x" and y': "id_b y' = id_b y"
      and a: "jsGreater a (Fin 0) \<Longrightarrow> jsGreater a cent" and ij: "i \<noteq> j"
    for st x' y' a i j
  proof -
    have "distinct (map id_b (x' # y' # rest))"
      using d x' y' by simp
    then have "distinct (map id_b (filter unsettled (x' # y' # rest)))"
      by (rule distinct_map_filter)
    moreover have "\<forall>s\<in>set (snd st). wellFormed s"
    proof (cases "jsGreater a (Fin 0)")
      case True
      with a pushed [OF ij] have "wellFormed \<lparr>from_s = i, to_s = j, amount = toFixed2 a\<rparr>"
        by blast
      with True wf show ?thesis by (simp add: st)
    next
      case False
      with wf show ?thesis by (simp add: st)
    qed
    ultimately show ?thesis by (simp add: st)
  qed
  from jsGreater_abs_cent [OF ux] show ?thesis
  proof
    assume neg: "jsLess (balance x) (Fin 0)"
    show ?thesis
      by (rule result [OF settleStep_debtor_first [OF shape neg] _ _
            amount_above_cent [OF ux uy] ne]) simp_all
  next
    assume pos: "jsGreater (balance x) (Fin 0)"
    show ?thesis
      by (rule result [OF settleStep_creditor_first [OF shape pos] _ _
            amount_above_cent [OF uy ux] ne [symmetric]]) simp_all
  qed
qed

lemma id_b_toBalance: "id_b (toBalance p) = id_p p"
  by (simp add: toBalance_def)

lemma ids_adjustPlayers: "map id_p (adjustPlayers players thr) = map id_p players"
  by (simp add: adjustPlayers_def Let_def comp_def)

lemma ids_unfiltered: "map id_b (map toBalance (adjustPlayers players thr)) = map id_p players"
  using ids_adjustPlayers [of players thr] by (simp add: comp_def id_b_toBalance)

lemma distinct_initialBalances:
  assumes "distinct (map id_p players)"
  shows "distinct (map id_b (initialBalances players thr))"
  unfolding initialBalances_def
  using assms ids_unfiltered [of players thr] by (intro distinct_map_filter) simp

lemma unsettled_initialBalances: "\<forall>b\<in>set (initialBalances players thr). unsettled b"
  by (simp add: initialBalances_def)

text \<open>
  Claim C10. On a player list with unique identifiers, at any threshold (the
  non-negative ones among them), every transfer that \<open>calculateSettlements\<close> returns
  has a strictly positive amount and a payer different from its payee.
\<close>

theorem transfers_well_formed:
  assumes ret: "calculateSettlements players imbalanceThreshold = Some ts"
    and ids: "distinct (map id_p players)"
  shows "\<forall>s\<in>set ts. jsGreater (amount s) (Fin 0) \<and> from_s s \<noteq> to_s s"
proof (cases "jsGreater (jsAbs (imbalanceOf players)) imbalanceThreshold")
  case True
  with ret show ?thesis by (simp add: calculateSettlements_def)
next
  case False
  with ret have loop: "settleLoop (initialBalances players imbalanceThreshold) [] = Some ts"
    by (simp add: calculateSettlements_def)
  have "\<exists>bs'. \<not> length bs' > 1 \<and>
          (distinct (map id_b bs') \<and> (\<forall>b\<in>set bs'. unsettled b) \<and> (\<forall>s\<in>set ts. wellFormed s))"
  proof (rule settleLoop_invariant [OF loop, where I = "\<lambda>bs acc. distinct (map id_b bs) \<and> (\<forall>b\<in>set bs. unsettled b) \<and> (\<forall>s\<in>set acc. wellFormed s)"])
    show "distinct (map id_b (initialBalances players imbalanceThreshold)) \<and>
      (\<forall>b\<in>set (initialBalances players imbalanceThreshold). unsettled b) \<and> (\<forall>s\<in>set []. wellFormed s)"
      using distinct_initialBalances [OF ids] unsettled_initialBalances by simp
  next
    fix bs acc
    assume "distinct (map id_b bs) \<and> (\<forall>b\<in>set bs. unsettled b) \<and> (\<forall>s\<in>set acc. wellFormed s)"
      and "1 < length bs"
    then show "distinct (map id_b (fst (settleStep bs acc))) \<and>
         (\<forall>b\<in>set (fst (settleStep bs acc)). unsettled b) \<and>
         (\<forall>s\<in>set (snd (settleStep bs acc)). wellFormed s)"
      using well_formed_step [of bs acc] by blast
  qed
  then show ?thesis by (auto simp: wellFormed_def)
qed

theorem transfers_well_formed_witness:
  "distinct (map id_p [player ''A'' 100 150, player ''B'' 100 50])
   \<and> calculateSettlements [player ''A'' 100 150, player ''B'' 100 50] (Fin 1)
       = Some [transfer ''B'' ''A'' 50]
   \<and> jsGreater (amount (transfer ''B'' ''A'' 50)) (Fin 0)
   \<and> from_s (transfer ''B'' ''A'' 50) \<noteq> to_s (transfer ''B'' ''A'' 50)"
proof -
  have ids: "distinct (map id_p [player ''A'' 100 150, player ''B'' 100 50])"
    by (simp add: player_def)
  have ret: "calculateSettlements [player ''A'' 100 150, player ''B'' 100 50] (Fin 1)
               = Some [transfer ''B'' ''A'' 50]"
    by code_simp
  show ?thesis
    using ids ret transfers_well_formed [OF ret ids] by simp
qed

end
